theory Spec2Isabelle
  imports Complex_Main "HOL-Library.Log_Nat"
begin

section \<open>Numbers and their decimal rendering\<close>


definition digit :: "nat \<Rightarrow> char" where
  "digit d = ''0123456789'' ! (d mod 10)"

text \<open>The decimal digits of a natural number, most significant first; \<open>0\<close> is \<open>''0''\<close>.\<close>

fun digits :: "nat \<Rightarrow> string" where
  "digits n = (if n < 10 then [digit n] else digits (n div 10) @ [digit (n mod 10)])"

declare digits.simps [simp del]

text \<open>
  The integer \<open>n\<close> for which \<open>n - x\<close> is as close to zero as possible, the larger one
  on a tie (ECMA-262, \<^verbatim>\<open>Number.prototype.toFixed\<close>, step 10.a); for the non-negative
  arguments it is used on, this is also the half-expand rounding of ECMA-402.
\<close>

definition round_half_up :: "rat \<Rightarrow> nat" where
  "round_half_up x = nat \<lfloor>x + 1 / 2\<rfloor>"

definition pad_zeros :: "nat \<Rightarrow> string \<Rightarrow> string" where
  "pad_zeros k m = replicate (k - length m) (CHR ''0'') @ m"

text \<open>Grouping separators of the \<^verbatim>\<open>en-US\<close> locale: a comma before every three digits.\<close>

fun group3 :: "string \<Rightarrow> string" where
  "group3 ds = (if length ds \<le> 3 then ds
     else group3 (take (length ds - 3) ds) @ '','' @ drop (length ds - 3) ds)"

declare group3.simps [simp del]

subsection \<open>Rounding to binary64\<close>

text \<open>\<open>ilog2 a\<close> is \<open>\<lfloor>log\<^sub>2 a\<rfloor>\<close> for a positive rational \<open>a\<close>.\<close>

definition ilog2 :: "rat \<Rightarrow> int" where
  "ilog2 a = (if 1 \<le> a then int (floorlog 2 (nat \<lfloor>a\<rfloor>)) - 1
     else - int (floorlog 2 (nat (\<lceil>1 / a\<rceil> - 1))))"

definition pow2 :: "int \<Rightarrow> rat" where
  "pow2 e = (if 0 \<le> e then 2 ^ nat e else 1 / 2 ^ nat (- e))"

definition round_half_even :: "rat \<Rightarrow> int" where
  "round_half_even q = (let n = \<lfloor>q\<rfloor>; r = q - of_int n in
     if r < 1 / 2 then n else if 1 / 2 < r then n + 1 else if even n then n else n + 1)"

text \<open>
  \<open>fl x\<close> is the binary64 value nearest to \<open>x\<close> (53 significant bits, ties to even), for
  \<open>x\<close> in the range of the normal numbers, which is where the script divides.
\<close>

definition fl :: "rat \<Rightarrow> rat" where
  "fl x = (if x = 0 then 0 else
     let a = \<bar>x\<bar>; u = pow2 (ilog2 a - 52) in
       sgn x * of_int (round_half_even (a / u)) * u)"


subsection \<open>\<^verbatim>\<open>Number.prototype.toFixed\<close>\<close>

text \<open>
  \<^verbatim>\<open>Number::toString\<close> for \<open>x \<ge> 10\<^sup>2\<^sup>1\<close> (ECMA-262): the shortest digit string
  \<open>s\<close> and the exponent for which \<open>s \<times> 10\<^sup>m\<close> rounds to \<open>x\<close>, printed in exponent
  notation. \<open>shortest_digits x d k fuel\<close> tries the lengths \<open>k, k + 1, \<dots>\<close>, where \<open>d\<close>
  is the number of integer digits of \<open>x\<close>; the candidate of length \<open>k\<close> is the multiple of
  \<open>10\<^sup>d\<^sup>-\<^sup>k\<close> nearest to \<open>x\<close>, the even one of two.
\<close>

fun shortest_digits :: "rat \<Rightarrow> nat \<Rightarrow> nat \<Rightarrow> nat \<Rightarrow> nat \<times> nat" where
  "shortest_digits x d k 0 = (nat (round_half_even (x / 10 ^ (d - k))), d - k)"
| "shortest_digits x d k (Suc fuel) =
     (let s = nat (round_half_even (x / 10 ^ (d - k))) in
        if fl (of_nat s * 10 ^ (d - k)) = x \<or> d \<le> k then (s, d - k)
        else shortest_digits x d (Suc k) fuel)"

fun strip_zeros :: "string \<Rightarrow> string" where
  "strip_zeros ds = rev (dropWhile (\<lambda>c. c = CHR ''0'') (rev ds))"

definition exponent_notation :: "rat \<Rightarrow> string" where
  "exponent_notation x =
     (let d = length (digits (nat \<lfloor>x\<rfloor>));
          (s, m) = shortest_digits x d 1 d;
          e = length (digits s) + m - 1;
          ds = strip_zeros (digits s)
      in (if length ds \<le> 1 then ds else take 1 ds @ ''.'' @ drop 1 ds)
           @ ''e+'' @ digits e)"

text \<open>
  Steps 10.a to 10.c of \<^verbatim>\<open>toFixed\<close>: the digits of \<open>x \<ge> 0\<close> rounded to \<open>f\<close>
  fractional digits, padded on the left so that at least one digit stands before the point.
\<close>

definition fixed_digits :: "nat \<Rightarrow> rat \<Rightarrow> string" where
  "fixed_digits f x =
     (let m = pad_zeros (f + 1) (digits (round_half_up (x * 10 ^ f)));
          k = length m
      in if f = 0 then m else take (k - f) m @ ''.'' @ drop (k - f) m)"

definition toFixed :: "nat \<Rightarrow> rat \<Rightarrow> string" where
  "toFixed f x =
     (let s = (if x < 0 then ''-'' else ''''); a = \<bar>x\<bar> in
        if 10 ^ 21 \<le> a then s @ exponent_notation a else s @ fixed_digits f a)"

subsection \<open>\<^verbatim>\<open>Intl.NumberFormat\<close> and \<^verbatim>\<open>toLocaleString\<close> in the \<^verbatim>\<open>en-US\<close> locale\<close>

text \<open>
  \<^verbatim>\<open>new Intl.NumberFormat('en-US', {style: 'currency', currency: 'USD',
  minimumFractionDigits: d, maximumFractionDigits: d}).format(x)\<close>: the sign, the dollar
  sign, the grouped integer part and exactly \<open>d\<close> fractional digits.
\<close>

definition currencyFormat :: "nat \<Rightarrow> rat \<Rightarrow> string" where
  "currencyFormat d x =
     (let n = round_half_up (\<bar>x\<bar> * 10 ^ d) in
        (if x < 0 then ''-'' else '''') @ ''$'' @ group3 (digits (n div 10 ^ d))
          @ (if d = 0 then '''' else ''.'' @ pad_zeros d (digits (n mod 10 ^ d))))"


section \<open>The formatting functions of the script\<close>

definition formatPrice :: "rat \<Rightarrow> string" where
  "formatPrice price =
     (if 1 \<le> price then currencyFormat 2 price else currencyFormat 6 price)"

definition formatPercentage :: "rat \<Rightarrow> string" where
  "formatPercentage percentage =
     (let sign = (if 0 \<le> percentage then ''+'' else '''') in
        sign @ toFixed 2 percentage @ ''%'')"





section \<open>Class attributes\<close>

text \<open>
  The \<^verbatim>\<open>class\<close> attribute of an element is a string; \<^verbatim>\<open>classList\<close> reads it
  as the ordered set of its tokens, split on ASCII whitespace, and writes it back as the
  tokens joined by single spaces.
\<close>

definition is_space :: "char \<Rightarrow> bool" where
  "is_space c = (c \<in> set [CHR 0x09, CHR 0x0A, CHR 0x0C, CHR 0x0D, CHR 0x20])"

function tokens :: "string \<Rightarrow> string list" where
  "tokens [] = []"
| "tokens (c # cs) =
     (if is_space c then tokens cs
      else (c # takeWhile (\<lambda>x. \<not> is_space x) cs) # tokens (dropWhile (\<lambda>x. \<not> is_space x) cs))"
  by pat_completeness auto
termination
  by (relation "measure length") (auto simp: le_imp_less_Suc length_dropWhile_le)

fun unwords :: "string list \<Rightarrow> string" where
  "unwords [] = []"
| "unwords [t] = t"
| "unwords (t # ts) = t @ '' '' @ unwords ts"

text \<open>
  Insertion into an ordered set, and \<^verbatim>\<open>new Set(array)\<close>: the elements in the order
  of their first occurrence.
\<close>

fun Set_add :: "'a list \<Rightarrow> 'a list \<Rightarrow> 'a list" where
  "Set_add seen [] = seen"
| "Set_add seen (x # xs) = Set_add (if x \<in> set seen then seen else seen @ [x]) xs"

definition new_Set :: "'a list \<Rightarrow> 'a list" where
  "new_Set xs = Set_add [] xs"

definition classList_contains :: "string \<Rightarrow> string \<Rightarrow> bool" where
  "classList_contains cls tok = (tok \<in> set (tokens cls))"

definition classList_add :: "string \<Rightarrow> string \<Rightarrow> string" where
  "classList_add tok cls = unwords (Set_add (new_Set (tokens cls)) [tok])"

definition starts_with :: "string \<Rightarrow> string \<Rightarrow> bool" where
  "starts_with s p = (take (length p) s = p)"

text \<open>
  \<^verbatim>\<open>className.replace(/text-(success|danger)/, '')\<close>: the leftmost match is deleted,
  and only that one (the pattern has no \<^verbatim>\<open>g\<close> flag).
\<close>

fun replace_text_class :: "string \<Rightarrow> string" where
  "replace_text_class [] = []"
| "replace_text_class (c # cs) =
     (if starts_with (c # cs) ''text-success'' then drop (length ''text-success'') (c # cs)
      else if starts_with (c # cs) ''text-danger'' then drop (length ''text-danger'') (c # cs)
      else c # replace_text_class cs)"

text \<open>\<^verbatim>\<open>String.prototype.includes\<close>.\<close>

fun str_includes :: "string \<Rightarrow> string \<Rightarrow> bool" where
  "str_includes [] sub = (sub = [])"
| "str_includes (c # cs) sub = (starts_with (c # cs) sub \<or> str_includes cs sub)"

section \<open>The document\<close>

text \<open>
  A node of the document is a text node or an element. An element carries its identity
  (the model's stand-in for the object reference the script holds), the value of its
  \<^verbatim>\<open>data-coin-id\<close> attribute if it has one, its \<^verbatim>\<open>class\<close> attribute, whether
  it matches \<^verbatim>\<open>[data-loading="true"]\<close>, and its child nodes. A document is the list
  of the child nodes of \<^verbatim>\<open>document.body\<close>.
\<close>

datatype node = Text string | Elem nat "string option" string bool "node list"

fun node_id :: "node \<Rightarrow> nat option" where
  "node_id (Text s) = None"
| "node_id (Elem i coin cls ld ks) = Some i"

fun coinId :: "node \<Rightarrow> string option" where
  "coinId (Text s) = None"
| "coinId (Elem i coin cls ld ks) = coin"

fun is_loading :: "node \<Rightarrow> bool" where
  "is_loading (Text s) = False"
| "is_loading (Elem i coin cls ld ks) = ld"

text \<open>The descendants of a node in document order, and the nodes of a document.\<close>

fun descendants :: "node \<Rightarrow> node list" where
  "descendants (Text s) = []"
| "descendants (Elem i coin cls ld ks) = concat (map (\<lambda>k. k # descendants k) ks)"

definition nodes :: "node list \<Rightarrow> node list" where
  "nodes doc = concat (map (\<lambda>k. k # descendants k) doc)"

text \<open>The identities of the elements of a document, in document order.\<close>

fun ids_of :: "node \<Rightarrow> nat list" where
  "ids_of (Text s) = []"
| "ids_of (Elem i coin cls ld ks) = i # concat (map ids_of ks)"

definition node_ids :: "node list \<Rightarrow> nat list" where
  "node_ids doc = concat (map ids_of doc)"

text \<open>\<^verbatim>\<open>textContent\<close>: the text of all text nodes below a node, in document order.\<close>

fun textContent :: "node \<Rightarrow> string" where
  "textContent (Text s) = s"
| "textContent (Elem i coin cls ld ks) = concat (map textContent ks)"

text \<open>
  Assigning \<^verbatim>\<open>textContent\<close> replaces the children by one text node, or by none when
  the string is empty.
\<close>

definition text_children :: "string \<Rightarrow> node list" where
  "text_children s = (if s = [] then [] else [Text s])"

text \<open>\<^verbatim>\<open>document.querySelectorAll('[data-coin-id]')\<close>, a static list in document order.\<close>

definition querySelectorAll_coin :: "node list \<Rightarrow> node list" where
  "querySelectorAll_coin doc = filter (\<lambda>n. coinId n \<noteq> None) (nodes doc)"

text \<open>\<^verbatim>\<open>el.querySelector('[data-loading="true"]')\<close>: the first matching descendant.\<close>

definition querySelector_loading :: "node \<Rightarrow> nat option" where
  "querySelector_loading el =
     (case filter is_loading (descendants el) of [] \<Rightarrow> None | s # rest \<Rightarrow> node_id s)"

text \<open>The element with a given identity, as it stands in the document now.\<close>

definition getElement :: "nat \<Rightarrow> node list \<Rightarrow> node option" where
  "getElement i doc = find (\<lambda>n. node_id n = Some i) (nodes doc)"

fun appendChild :: "nat \<Rightarrow> node \<Rightarrow> node \<Rightarrow> node" where
  "appendChild i new (Text s) = Text s"
| "appendChild i new (Elem j coin cls ld ks) =
     (if j = i then Elem j coin cls ld (ks @ [new])
      else Elem j coin cls ld (map (appendChild i new) ks))"

fun removeNode :: "nat \<Rightarrow> node \<Rightarrow> node" where
  "removeNode i (Text s) = Text s"
| "removeNode i (Elem j coin cls ld ks) =
     Elem j coin cls ld (map (removeNode i) (filter (\<lambda>k. node_id k \<noteq> Some i) ks))"

definition remove :: "nat \<Rightarrow> node list \<Rightarrow> node list" where
  "remove i doc = map (removeNode i) (filter (\<lambda>k. node_id k \<noteq> Some i) doc)"

section \<open>The page: document, timers and the Fetcher's log\<close>

text \<open>
  The state the refresh pipeline and the Notifier work on: the document, the supply of
  fresh element identities, a logical clock in milliseconds, the pending
  \<^verbatim>\<open>setTimeout\<close> callbacks of \<^verbatim>\<open>showNotification\<close> (due time and the banner each
  one closes over), and the arguments \<^verbatim>\<open>fetchCoinPrices\<close> has been called with.
\<close>

record page =
  body :: "node list"
  fresh :: nat
  clock :: nat
  timeouts :: "(nat \<times> nat) list"
  requests :: "string list list"

record quote =
  usd :: rat
  usd_24h_change :: rat

type_synonym prices = "string \<rightharpoonup> quote"

text \<open>
  The quotes are a JavaScript object used as a dictionary from coin identifier to quote;
  it is modelled as a partial map (the properties an object inherits from its prototype,
  such as \<^verbatim>\<open>constructor\<close>, are not coin identifiers and are left out).

  The Fetcher is the seam to the price service: the promise it returns either resolves
  with the quotes or rejects.
\<close>

datatype fetch_result = Resolved prices | Rejected

text \<open>
  The mock \<^verbatim>\<open>fetchCoinPrices\<close> of the script resolves, one second later, with a quote
  for each identifier, made of two draws of \<^verbatim>\<open>Math.random()\<close> each:
  \<^verbatim>\<open>Math.random() * 1000\<close> and \<^verbatim>\<open>(Math.random() - 0.5) * 20\<close>. The draws are a
  parameter, \<open>random k\<close> being the \<open>k\<close>-th one.
\<close>

fun mockPrices :: "(nat \<Rightarrow> rat) \<Rightarrow> nat \<Rightarrow> string list \<Rightarrow> prices \<Rightarrow> prices" where
  "mockPrices random k [] ps = ps"
| "mockPrices random k (c # cs) ps =
     mockPrices random (k + 2) cs
       (ps(c \<mapsto> \<lparr>usd = fl (random k * 1000),
                      usd_24h_change = fl (fl (random (k + 1) - 1 / 2) * 20)\<rparr>))"

definition fetchCoinPrices :: "(nat \<Rightarrow> rat) \<Rightarrow> string list \<Rightarrow> fetch_result" where
  "fetchCoinPrices random coinIds = Resolved (mockPrices random 0 coinIds Map.empty)"

subsection \<open>Loading markers\<close>

definition spinner :: "nat \<Rightarrow> node" where
  "spinner i = Elem i None ''loading-spinner'' True []"

definition showLoadingIndicators :: "nat list \<Rightarrow> page \<Rightarrow> page" where
  "showLoadingIndicators elements st =
     fold (\<lambda>el s. s\<lparr>body := map (appendChild el (spinner (fresh s))) (body s),
                     fresh := Suc (fresh s)\<rparr>) elements st"

text \<open>
  \<^verbatim>\<open>hideLoadingIndicators\<close> looks each element up as it stands now. An element that
  is no longer in the document (the text of an ancestor was rewritten meanwhile) keeps its
  own subtree, and removing a marker there does not change the document.
\<close>

definition hideLoadingIndicators :: "nat list \<Rightarrow> page \<Rightarrow> page" where
  "hideLoadingIndicators elements st =
     fold (\<lambda>el s. case getElement el (body s) of
                     None \<Rightarrow> s
                   | Some e \<Rightarrow> (case querySelector_loading e of
                                  None \<Rightarrow> s
                                | Some sp \<Rightarrow> s\<lparr>body := remove sp (body s)\<rparr>)) elements st"

text \<open>The loading markers attached to coin-tagged elements: their matching children.\<close>

fun markers_of :: "node \<Rightarrow> node list" where
  "markers_of (Text s) = []"
| "markers_of (Elem i coin cls ld ks) =
     (if coin \<noteq> None then filter is_loading ks else []) @ concat (map markers_of ks)"

definition loading_markers :: "node list \<Rightarrow> node list" where
  "loading_markers doc = concat (map markers_of doc)"

subsection \<open>The Renderer\<close>

text \<open>
  \<^verbatim>\<open>updatePriceElements\<close> visits the coin-tagged elements in document order. Writing
  \<^verbatim>\<open>textContent\<close> discards the subtree of an element, so the tagged elements below
  it that the loop still visits are detached by then and their updates never reach the
  document; below an element that is not written, the loop goes on with its children.
  \<open>render\<close> is that traversal.
\<close>

fun render :: "prices \<Rightarrow> node \<Rightarrow> node" where
  "render ps (Text s) = Text s"
| "render ps (Elem i coin cls ld ks) =
     (case (case coin of None \<Rightarrow> None | Some c \<Rightarrow> ps c) of
        None \<Rightarrow> Elem i coin cls ld (map (render ps) ks)
      | Some price \<Rightarrow>
          (let price_display = classList_contains cls ''price-display'';
               change_display = classList_contains cls ''change-display'';
               change = usd_24h_change price;
               ks1 = (if price_display then text_children (formatPrice (usd price)) else ks);
               ks2 = (if change_display then text_children (formatPercentage change) else ks1);
               cls2 = (if change_display
                       then classList_add (if 0 \<le> change then ''text-success'' else ''text-danger'')
                              (replace_text_class cls)
                       else cls)
           in Elem i coin cls2 ld
                (if price_display \<or> change_display then ks2 else map (render ps) ks)))"

definition updatePriceElements :: "prices \<Rightarrow> page \<Rightarrow> page" where
  "updatePriceElements ps st = st\<lparr>body := map (render ps) (body st)\<rparr>"

subsection \<open>The Notifier\<close>

text \<open>
  \<^verbatim>\<open>showNotification(message, type = 'info', duration = 3000)\<close>; an omitted argument
  is \<open>None\<close>. The banner holds the message and a close button, with the white space of
  the template around them, is appended to \<^verbatim>\<open>document.body\<close>, and a timeout is set
  that removes it. The messages of the script are plain text, and \<^verbatim>\<open>innerHTML\<close> makes
  one text node of them.
\<close>

definition indent :: "nat \<Rightarrow> string" where
  "indent k = CHR 0x0A # replicate k (CHR '' '')"

definition banner :: "nat \<Rightarrow> string \<Rightarrow> string \<Rightarrow> node" where
  "banner i type message =
     Elem i None (''alert alert-'' @ type @ '' alert-dismissible fade show position-fixed'') False
       [Text (indent 8 @ message @ indent 8),
        Elem (Suc i) None ''btn-close'' False [],
        Text (indent 4)]"

definition showNotification :: "string \<Rightarrow> string option \<Rightarrow> nat option \<Rightarrow> page \<Rightarrow> page" where
  "showNotification message type duration st =
     (let ty = (case type of None \<Rightarrow> ''info'' | Some t \<Rightarrow> t);
          d = (case duration of None \<Rightarrow> 3000 | Some d \<Rightarrow> d)
      in st\<lparr>body := body st @ [banner (fresh st) ty message],
             fresh := fresh st + 2,
             timeouts := timeouts st @ [(clock st + d, fresh st)]\<rparr>)"

text \<open>
  The deferred callback: \<^verbatim>\<open>if (notification.parentNode) notification.remove()\<close>.
\<close>

definition removeNotification :: "nat \<Rightarrow> page \<Rightarrow> page" where
  "removeNotification n st =
     (if n \<in> set (node_ids (body st)) then st\<lparr>body := remove n (body st)\<rparr> else st)"

text \<open>
  Time passes to \<open>t\<close>: the timeouts that are due run in the order of their due times, those
  set earlier first among equals.
\<close>

definition advance :: "nat \<Rightarrow> page \<Rightarrow> page" where
  "advance t st =
     fold (\<lambda>(due, n). removeNotification n)
       (sort_key fst (filter (\<lambda>(due, n). due \<le> t) (timeouts st)))
       (st\<lparr>timeouts := filter (\<lambda>(due, n). \<not> due \<le> t) (timeouts st),
            clock := max (clock st) t\<rparr>)"

text \<open>The banners of a given type that stand in the document.\<close>

definition banners :: "string \<Rightarrow> node list \<Rightarrow> node list" where
  "banners type doc =
     filter (\<lambda>n. case n of Text s \<Rightarrow> False
                 | Elem i coin cls ld ks \<Rightarrow> classList_contains cls (''alert-'' @ type)) doc"

subsection \<open>One refresh cycle\<close>

text \<open>
  \<^verbatim>\<open>updatePrices\<close> up to the call of the Fetcher: the elements it holds on to and the
  argument of \<^verbatim>\<open>fetchCoinPrices\<close>, or \<open>None\<close> when it returns early.
\<close>

definition updatePrices_begin :: "page \<Rightarrow> page \<times> (nat list \<times> string list) option" where
  "updatePrices_begin st =
     (let priceElements = querySelectorAll_coin (body st) in
        if length priceElements = 0 then (st, None)
        else
          let coinIds = List.map_filter coinId priceElements;
              uniqueCoinIds = new_Set coinIds;
              els = List.map_filter node_id priceElements;
              st1 = showLoadingIndicators els st
          in (st1\<lparr>requests := requests st1 @ [uniqueCoinIds]\<rparr>, Some (els, uniqueCoinIds)))"

text \<open>The \<^verbatim>\<open>then\<close> and \<^verbatim>\<open>catch\<close> handlers.\<close>

definition updatePrices_settle :: "nat list \<Rightarrow> fetch_result \<Rightarrow> page \<Rightarrow> page" where
  "updatePrices_settle priceElements result st =
     (case result of
        Resolved ps \<Rightarrow> hideLoadingIndicators priceElements (updatePriceElements ps st)
      | Rejected \<Rightarrow>
          showNotification ''Failed to update prices'' (Some ''error'') None
            (hideLoadingIndicators priceElements st))"

text \<open>
  A whole cycle, with nothing else running between the call of the Fetcher and the
  settling of its promise; the Fetcher is a parameter.
\<close>

definition updatePrices :: "(string list \<Rightarrow> fetch_result) \<Rightarrow> page \<Rightarrow> page" where
  "updatePrices fetcher st =
     (case updatePrices_begin st of
        (st1, None) \<Rightarrow> st1
      | (st1, Some (els, uniqueCoinIds)) \<Rightarrow>
          updatePrices_settle els (fetcher uniqueCoinIds) st1)"

section \<open>The Ticker\<close>

text \<open>
  The global \<^verbatim>\<open>priceUpdateInterval\<close>, the browser's table of repeating timers and
  \<^verbatim>\<open>document.hidden\<close>. \<^verbatim>\<open>setInterval\<close> hands out positive handles; an interval
  fires every period until it is cleared.
\<close>

record ticker =
  priceUpdateInterval :: "nat option"
  intervals :: "nat list"
  nextHandle :: nat
  hidden :: bool

text \<open>The state in which the script is loaded; a page opened in a background tab is hidden.\<close>

definition initial_ticker :: "bool \<Rightarrow> ticker" where
  "initial_ticker h = \<lparr>priceUpdateInterval = None, intervals = [], nextHandle = 1, hidden = h\<rparr>"

definition setInterval :: "ticker \<Rightarrow> nat \<times> ticker" where
  "setInterval tk =
     (nextHandle tk, tk\<lparr>intervals := intervals tk @ [nextHandle tk],
                         nextHandle := Suc (nextHandle tk)\<rparr>)"

definition clearInterval :: "nat \<Rightarrow> ticker \<Rightarrow> ticker" where
  "clearInterval h tk = tk\<lparr>intervals := filter (\<lambda>i. i \<noteq> h) (intervals tk)\<rparr>"

definition allowed_route :: "string \<Rightarrow> bool" where
  "allowed_route pathname =
     (str_includes pathname ''/dashboard'' \<or> str_includes pathname ''/portfolio'')"

definition startPriceUpdates :: "string \<Rightarrow> ticker \<Rightarrow> ticker" where
  "startPriceUpdates pathname tk =
     (if allowed_route pathname
      then (let (h, tk1) = setInterval tk in tk1\<lparr>priceUpdateInterval := Some h\<rparr>)
      else tk)"

text \<open>
  \<^verbatim>\<open>if (priceUpdateInterval) clearInterval(priceUpdateInterval)\<close>, the body of the
  hidden branch of the visibility listener and of the unload listener.
\<close>

definition clearPriceUpdates :: "ticker \<Rightarrow> ticker" where
  "clearPriceUpdates tk =
     (case priceUpdateInterval tk of
        None \<Rightarrow> tk
      | Some h \<Rightarrow> if h \<noteq> 0 then clearInterval h tk else tk)"

text \<open>
  The events the Ticker listens to. The browser fires \<^verbatim>\<open>visibilitychange\<close> when the
  visibility of the page has changed, and the listener then reads \<^verbatim>\<open>document.hidden\<close>.
\<close>

datatype event = DOMContentLoaded | VisibilityChange | BeforeUnload

fun handle :: "string \<Rightarrow> event \<Rightarrow> ticker \<Rightarrow> ticker" where
  "handle pathname DOMContentLoaded tk = startPriceUpdates pathname tk"
| "handle pathname VisibilityChange tk =
     (let tk1 = tk\<lparr>hidden := \<not> hidden tk\<rparr> in
        if hidden tk1 then clearPriceUpdates tk1 else startPriceUpdates pathname tk1)"
| "handle pathname BeforeUnload tk = clearPriceUpdates tk"

definition run :: "string \<Rightarrow> event list \<Rightarrow> ticker \<Rightarrow> ticker" where
  "run pathname evs tk = fold (handle pathname) evs tk"

text \<open>
  The invariant of a page that was loaded visible: at most one interval is active, the one
  \<^verbatim>\<open>priceUpdateInterval\<close> holds, and none while the page is hidden.
\<close>

definition single_interval :: "ticker \<Rightarrow> bool" where
  "single_interval tk =
     ((if hidden tk then intervals tk = [] else length (intervals tk) \<le> 1)
      \<and> set (intervals tk) \<subseteq> set_option (priceUpdateInterval tk)
      \<and> 0 \<notin> set (intervals tk))"

section \<open>Documents up to class attributes\<close>

text \<open>A node with the class attributes of all its elements blanked.\<close>

fun strip_classes :: "node \<Rightarrow> node" where
  "strip_classes (Text s) = Text s"
| "strip_classes (Elem i coin cls ld ks) = Elem i coin [] ld (map strip_classes ks)"

section \<open>Example documents\<close>

text \<open>
  A table row tagged with a coin identifier that holds a tagged price cell, as in
  \<^verbatim>\<open><tr data-coin-id="bitcoin"><td class="price-display" data-coin-id="bitcoin">\<close>.
\<close>

definition nested_page :: page where
  "nested_page =
     \<lparr>body = [Elem 1 (Some ''bitcoin'') ''coin-row'' False
                [Elem 2 (Some ''bitcoin'') ''price-display'' False [Text ''$1.00'']]],
      fresh = 3, clock = 0, timeouts = [], requests = []\<rparr>"

text \<open>Three tagged elements side by side, two of them for the same coin.\<close>

definition flat_page :: page where
  "flat_page =
     \<lparr>body = [Elem 1 (Some ''bitcoin'') ''price-display'' False [Text ''$1.00''],
              Elem 2 (Some ''bitcoin'') ''change-display text-success'' False [Text ''+0.10%''],
              Elem 3 (Some ''ethereum'') ''price-display'' False []],
      fresh = 4, clock = 0, timeouts = [], requests = []\<rparr>"

text \<open>A page with no coin-tagged element.\<close>

definition plain_page :: page where
  "plain_page =
     \<lparr>body = [Elem 1 None ''navbar'' False [Text ''CryptoDash'']],
      fresh = 2, clock = 0, timeouts = [], requests = []\<rparr>"

section \<open>Properties of the number rendering\<close>






















































section \<open>The refresh cycle and the Ticker\<close>

text \<open>The mock Fetcher never rejects, and it quotes exactly the identifiers it is given.\<close>

lemma dom_mockPrices: "dom (mockPrices random k ids ps) = dom ps \<union> set ids"
  by (induction ids arbitrary: k ps) auto

lemma fetchCoinPrices_resolves:
  "fetchCoinPrices random ids \<noteq> Rejected
   \<and> (\<exists>ps. fetchCoinPrices random ids = Resolved ps \<and> dom ps = set ids)"
  by (simp add: fetchCoinPrices_def dom_mockPrices)

lemma fold_requests:
  assumes "\<And>x s. requests (f x s) = requests s"
  shows "requests (fold f xs st) = requests st"
  using assms by (induction xs arbitrary: st) simp_all

lemma requests_showLoadingIndicators [simp]:
  "requests (showLoadingIndicators els st) = requests st"
  unfolding showLoadingIndicators_def by (rule fold_requests) simp

lemma requests_hideLoadingIndicators [simp]:
  "requests (hideLoadingIndicators els st) = requests st"
  unfolding hideLoadingIndicators_def by (rule fold_requests) (simp split: option.splits)

lemma requests_updatePrices_settle [simp]:
  "requests (updatePrices_settle els r st) = requests st"
  by (cases r) (simp_all add: updatePrices_settle_def updatePriceElements_def showNotification_def Let_def)

lemma set_Set_add: "set (Set_add seen xs) = set seen \<union> set xs"
  by (induction xs arbitrary: seen) auto




text \<open>
  Claim C10. A call of \<^verbatim>\<open>updatePrices\<close> on a document with no coin-tagged element
  changes nothing: no call of the Fetcher, no loading marker, no text, no notification.
\<close>

theorem updatePrices_no_elements:
  "querySelectorAll_coin (body st) = [] \<Longrightarrow> updatePrices fetcher st = st"
  by (simp add: updatePrices_def updatePrices_begin_def)

theorem updatePrices_no_elements_witness:
  "querySelectorAll_coin (body plain_page) = []
   \<and> updatePrices (\<lambda>ids. Rejected) plain_page = plain_page"
proof -
  have a: "querySelectorAll_coin (body plain_page) = []"
    by (simp add: plain_page_def querySelectorAll_coin_def nodes_def)
  from updatePrices_no_elements [OF a, of "\<lambda>ids. Rejected"] a show ?thesis by simp
qed

text \<open>
  Claim C1, on a document with nested tagged elements. The cycle attaches one marker to
  each of the two elements; after the fetch has rejected and the cycle is over, the marker
  of the outer element is still in the document, because the search for the marker of the
  outer element finds the one of the inner element first. One error banner is shown.
\<close>

theorem updatePrices_rejected_nested:
  "map node_id (loading_markers (body (fst (updatePrices_begin nested_page)))) = [Some 3, Some 4]
   \<and> map node_id (loading_markers (body (updatePrices (\<lambda>ids. Rejected) nested_page))) = [Some 3]
   \<and> length (banners ''error'' (body (updatePrices (\<lambda>ids. Rejected) nested_page))) = 1"
  by code_simp

text \<open>
  On a document whose tagged elements stand side by side, a cycle whose fetch rejects
  leaves no marker behind and shows one error banner.
\<close>

lemma updatePrices_rejected_flat:
  "map node_id (loading_markers (body (fst (updatePrices_begin flat_page)))) =
     [Some 4, Some 5, Some 6]
   \<and> loading_markers (body (updatePrices (\<lambda>ids. Rejected) flat_page)) = []
   \<and> length (banners ''error'' (body (updatePrices (\<lambda>ids. Rejected) flat_page))) = 1"
  by code_simp

text \<open>
  Claim C2. A second call of \<^verbatim>\<open>startPriceUpdates\<close> sets a second interval beside the
  one that is running. The listeners reach that state on a page that is loaded while
  hidden (opened in a background tab) and then shown: \<^verbatim>\<open>startPriceUpdates\<close> runs at
  \<^verbatim>\<open>DOMContentLoaded\<close> and again when the page becomes visible, and two intervals are
  active.
\<close>

theorem startPriceUpdates_duplicate_interval:
  "intervals (startPriceUpdates ''/dashboard''
      (startPriceUpdates ''/dashboard'' (initial_ticker False))) = [1, 2]
   \<and> intervals (run ''/dashboard'' [DOMContentLoaded, VisibilityChange] (initial_ticker True))
      = [1, 2]"
  by code_simp

text \<open>
  Claim C7, on the same page once it is hidden again: the visibility listener clears the
  interval \<^verbatim>\<open>priceUpdateInterval\<close> holds, the second one, and the first keeps firing
  while the page is hidden.
\<close>

theorem interval_survives_hidden:
  "hidden (run ''/dashboard'' [DOMContentLoaded, VisibilityChange, VisibilityChange]
       (initial_ticker True))
   \<and> intervals (run ''/dashboard'' [DOMContentLoaded, VisibilityChange, VisibilityChange]
       (initial_ticker True)) = [1]"
  by code_simp

text \<open>Outside the allow-listed routes no interval is ever set.\<close>

lemma handle_not_allowed:
  "\<not> allowed_route pathname \<Longrightarrow> intervals tk = [] \<Longrightarrow> intervals (handle pathname ev tk) = []"
  by (cases ev)
    (auto simp: startPriceUpdates_def clearPriceUpdates_def clearInterval_def Let_def
      split: option.splits)

lemma run_not_allowed:
  "\<not> allowed_route pathname \<Longrightarrow> intervals tk = [] \<Longrightarrow> intervals (run pathname evs tk) = []"
  unfolding run_def by (induction evs arbitrary: tk) (simp_all add: handle_not_allowed)

lemma single_interval_handle:
  assumes "single_interval tk" "ev \<noteq> DOMContentLoaded" "0 < nextHandle tk"
  shows "single_interval (handle pathname ev tk) \<and> 0 < nextHandle (handle pathname ev tk)"
proof (cases ev)
  case DOMContentLoaded
  with assms(2) show ?thesis by simp
next
  case VisibilityChange
  show ?thesis
  proof (cases "hidden tk")
    case True
    with assms(1) have "intervals tk = []" by (simp add: single_interval_def)
    with True assms(3) VisibilityChange show ?thesis
      by (simp add: single_interval_def startPriceUpdates_def setInterval_def Let_def)
  next
    case False
    with assms VisibilityChange show ?thesis
      by (cases "priceUpdateInterval tk"; cases "intervals tk")
        (auto simp: single_interval_def clearPriceUpdates_def clearInterval_def Let_def)
  qed
next
  case BeforeUnload
  with assms show ?thesis
    by (cases "priceUpdateInterval tk"; cases "intervals tk")
      (auto simp: single_interval_def clearPriceUpdates_def clearInterval_def
        split: if_splits)
qed

lemma single_interval_run:
  assumes "single_interval tk" "DOMContentLoaded \<notin> set evs" "0 < nextHandle tk"
  shows "single_interval (run pathname evs tk)"
  using assms unfolding run_def
proof (induction evs arbitrary: tk)
  case Nil
  then show ?case by simp
next
  case (Cons ev evs)
  from single_interval_handle [of tk ev pathname] Cons.prems
  have "single_interval (handle pathname ev tk)" "0 < nextHandle (handle pathname ev tk)"
    by auto
  with Cons show ?case by simp
qed

lemma loaded_visible_single_interval:
  assumes "DOMContentLoaded \<notin> set evs"
  shows "length (intervals (run pathname (DOMContentLoaded # evs) (initial_ticker False))) \<le> 1"
proof -
  define tk where "tk = handle pathname DOMContentLoaded (initial_ticker False)"
  have "single_interval tk" "0 < nextHandle tk"
    by (simp_all add: tk_def single_interval_def initial_ticker_def startPriceUpdates_def
        setInterval_def)
  from single_interval_run [OF this(1) assms this(2), of pathname]
  have "single_interval (run pathname evs tk)" .
  then have "length (intervals (run pathname evs tk)) \<le> 1"
    by (auto simp: single_interval_def split: if_splits)
  then show ?thesis by (simp add: run_def tk_def)
qed

lemma loaded_visible_hidden_stops:
  assumes "DOMContentLoaded \<notin> set evs"
    and "hidden (run pathname (DOMContentLoaded # evs) (initial_ticker False))"
  shows "intervals (run pathname (DOMContentLoaded # evs) (initial_ticker False)) = []"
proof -
  define tk where "tk = handle pathname DOMContentLoaded (initial_ticker False)"
  have "single_interval tk" "0 < nextHandle tk"
    by (simp_all add: tk_def single_interval_def initial_ticker_def startPriceUpdates_def
        setInterval_def)
  from single_interval_run [OF this(1) assms(1) this(2), of pathname]
  have "single_interval (run pathname evs tk)" .
  moreover have "run pathname (DOMContentLoaded # evs) (initial_ticker False) = run pathname evs tk"
    by (simp add: run_def tk_def)
  ultimately show ?thesis using assms(2) by (simp add: single_interval_def)
qed

section \<open>The Notifier\<close>

lemma node_ids_eq: "node_ids doc = concat (map ids_of doc)"
  by (simp add: node_ids_def)

lemma ids_of_removeNode: "set (ids_of (removeNode i n)) \<subseteq> set (ids_of n) - (if node_id n = Some i then {} else {i})"
proof (induction n)
  case (Text s)
  show ?case by simp
next
  case (Elem j coin cls ld ks)
  have "set (ids_of (removeNode i k)) \<subseteq> set (ids_of k) - {i}"
    if "k \<in> set ks" "node_id k \<noteq> Some i" for k
    using Elem [OF that(1)] that(2) by simp
  then show ?case by (cases "j = i") (auto simp: image_iff)
qed

lemma node_ids_remove_subset: "set (node_ids (remove i doc)) \<subseteq> set (node_ids doc) - {i}"
proof -
  have "set (ids_of (removeNode i k)) \<subseteq> set (ids_of k) - {i}" if "node_id k \<noteq> Some i" for k
    using ids_of_removeNode [of i k] that by simp
  then show ?thesis by (auto simp: node_ids_eq remove_def)
qed

lemma removeNotification_absent:
  "n \<notin> set (node_ids (body (removeNotification n s)))"
  using node_ids_remove_subset [of n "body s"] by (auto simp: removeNotification_def)

lemma removeNotification_keeps_absent:
  "b \<notin> set (node_ids (body s)) \<Longrightarrow> b \<notin> set (node_ids (body (removeNotification n s)))"
  using node_ids_remove_subset [of n "body s"] by (auto simp: removeNotification_def)

lemma fold_keeps_absent:
  "b \<notin> set (node_ids (body s)) \<Longrightarrow>
     b \<notin> set (node_ids (body (fold (\<lambda>(due, n). removeNotification n) xs s)))"
proof (induction xs arbitrary: s)
  case Nil
  then show ?case by simp
next
  case (Cons x xs)
  obtain due n where x: "x = (due, n)" by (cases x)
  have "b \<notin> set (node_ids (body (removeNotification n s)))"
    using Cons.prems by (rule removeNotification_keeps_absent)
  from Cons.IH [OF this] show ?case by (simp add: x)
qed

lemma fold_removes:
  "(due, b) \<in> set xs \<Longrightarrow>
     b \<notin> set (node_ids (body (fold (\<lambda>(due, n). removeNotification n) xs s)))"
proof (induction xs arbitrary: s)
  case Nil
  then show ?case by simp
next
  case (Cons x xs)
  show ?case
  proof (cases "x = (due, b)")
    case True
    have "b \<notin> set (node_ids (body (removeNotification b s)))"
      by (rule removeNotification_absent)
    from fold_keeps_absent [OF this] show ?thesis by (simp add: True)
  next
    case False
    obtain due' n where x: "x = (due', n)" by (cases x)
    from False Cons.prems have "(due, b) \<in> set xs" by simp
    from Cons.IH [OF this] show ?thesis by (simp add: x)
  qed
qed

text \<open>
  Claim C9. \<^verbatim>\<open>showNotification(message, type, duration)\<close> puts a banner into the
  document and sets a timeout for the given duration, 3000 ms when it is omitted; once
  that time has passed the banner is no longer in the document; and the deferred removal
  of a banner that is already gone from the document leaves the page as it is (the model
  of the callback is a total function: it has no failing branch).
\<close>

theorem showNotification_auto_remove:
  "fresh st \<in> set (node_ids (body (showNotification message type duration st)))
   \<and> (clock st + (case duration of None \<Rightarrow> 3000 | Some d \<Rightarrow> d), fresh st)
        \<in> set (timeouts (showNotification message type duration st))
   \<and> (clock st + (case duration of None \<Rightarrow> 3000 | Some d \<Rightarrow> d) \<le> t \<longrightarrow>
        fresh st \<notin> set (node_ids (body (advance t (showNotification message type duration st)))))
   \<and> (n \<notin> set (node_ids (body s)) \<longrightarrow> removeNotification n s = s)"
proof (intro conjI impI)
  show "fresh st \<in> set (node_ids (body (showNotification message type duration st)))"
    by (simp add: showNotification_def Let_def node_ids_eq banner_def)
  show "(clock st + (case duration of None \<Rightarrow> 3000 | Some d \<Rightarrow> d), fresh st)
        \<in> set (timeouts (showNotification message type duration st))"
    by (simp add: showNotification_def Let_def)
  then show "fresh st \<notin> set (node_ids (body (advance t (showNotification message type duration st))))"
    if "clock st + (case duration of None \<Rightarrow> 3000 | Some d \<Rightarrow> d) \<le> t"
    unfolding advance_def using that by (intro fold_removes) auto
  show "removeNotification n s = s" if "n \<notin> set (node_ids (body s))"
    using that by (simp add: removeNotification_def)
qed

theorem showNotification_auto_remove_witness:
  "fresh plain_page = 2
   \<and> node_ids (body (showNotification ''Copied to clipboard'' (Some ''success'') None plain_page))
       = [1, 2, 3]
   \<and> timeouts (showNotification ''Copied to clipboard'' (Some ''success'') None plain_page)
       = [(3000, 2)]
   \<and> clock plain_page + 3000 \<le> 3000
   \<and> node_ids (body (advance 3000
         (showNotification ''Copied to clipboard'' (Some ''success'') None plain_page))) = [1]
   \<and> 2 \<notin> set (node_ids (body plain_page))
   \<and> removeNotification 2 plain_page = plain_page"
proof -
  note th = showNotification_auto_remove [of plain_page "''Copied to clipboard''" "Some ''success''"
      None 3000 2 plain_page]
  have a: "node_ids (body (showNotification ''Copied to clipboard'' (Some ''success'') None plain_page))
       = [1, 2, 3]"
    by (simp add: showNotification_def plain_page_def node_ids_eq banner_def)
  have b: "node_ids (body (advance 3000
         (showNotification ''Copied to clipboard'' (Some ''success'') None plain_page))) = [1]"
    by (simp add: advance_def showNotification_def plain_page_def node_ids_eq banner_def
        removeNotification_def remove_def)
  have c: "2 \<notin> set (node_ids (body plain_page))"
    by (simp add: plain_page_def node_ids_eq)
  from th a b c show ?thesis
    by (simp add: showNotification_def plain_page_def)
qed

section \<open>The Renderer\<close>

lemma tokens_word:
  assumes "w \<noteq> []" "\<forall>c\<in>set w. \<not> is_space c" "post = [] \<or> is_space (hd post)"
  shows "tokens (w @ post) = w # tokens post"
proof -
  obtain c w' where w: "w = c # w'" using assms(1) by (cases w) auto
  have w': "\<And>x. x \<in> set w' \<Longrightarrow> \<not> is_space x" and c: "\<not> is_space c"
    using assms(2) w by auto
  have p: "takeWhile (\<lambda>x. \<not> is_space x) post = []" "dropWhile (\<lambda>x. \<not> is_space x) post = post"
    using assms(3) by (cases post; simp)+
  have "takeWhile (\<lambda>x. \<not> is_space x) (w' @ post) = w'"
    using w' p(1) by (simp add: takeWhile_append2)
  moreover have "dropWhile (\<lambda>x. \<not> is_space x) (w' @ post) = post"
    using w' p(2) by (simp add: dropWhile_append2)
  ultimately show ?thesis using c by (simp add: w)
qed

lemma tokens_append:
  "pre = [] \<or> is_space (last pre) \<Longrightarrow> tokens (pre @ r) = tokens pre @ tokens r"
proof (induction pre rule: tokens.induct)
  case 1
  show ?case by simp
next
  case (2 c cs)
  show ?case
  proof (cases "is_space c")
    case True
    have "cs = [] \<or> is_space (last cs)" using "2.prems" by (cases cs) auto
    from "2.IH"(1) [OF True this] True show ?thesis by simp
  next
    case False
    with "2.prems" have cs: "cs \<noteq> []" "is_space (last cs)" by (auto split: if_splits)
    then have ex: "last cs \<in> set cs" "\<not> \<not> is_space (last cs)" by simp_all
    have t: "takeWhile (\<lambda>x. \<not> is_space x) (cs @ r) = takeWhile (\<lambda>x. \<not> is_space x) cs"
      using ex by (rule takeWhile_append1)
    have d: "dropWhile (\<lambda>x. \<not> is_space x) (cs @ r) = dropWhile (\<lambda>x. \<not> is_space x) cs @ r"
      using ex by (rule dropWhile_append1)
    have ne: "dropWhile (\<lambda>x. \<not> is_space x) cs \<noteq> []"
      using ex by (auto simp: dropWhile_eq_Nil_conv)
    have "cs = takeWhile (\<lambda>x. \<not> is_space x) cs @ dropWhile (\<lambda>x. \<not> is_space x) cs" by simp
    then have "last cs = last (dropWhile (\<lambda>x. \<not> is_space x) cs)"
      using ne by (metis last_appendR)
    with cs(2) ne have "dropWhile (\<lambda>x. \<not> is_space x) cs = [] \<or>
        is_space (last (dropWhile (\<lambda>x. \<not> is_space x) cs))" by simp
    from "2.IH"(2) [OF False this] False t d show ?thesis by simp
  qed
qed

lemma tokens_wellformed:
  "t \<in> set (tokens s) \<Longrightarrow> t \<noteq> [] \<and> (\<forall>c\<in>set t. \<not> is_space c)"
proof (induction s rule: tokens.induct)
  case 1
  then show ?case by simp
next
  case (2 c cs)
  show ?case
  proof (cases "is_space c")
    case True
    with 2 show ?thesis by simp
  next
    case False
    with "2.prems" consider "t = c # takeWhile (\<lambda>x. \<not> is_space x) cs"
      | "t \<in> set (tokens (dropWhile (\<lambda>x. \<not> is_space x) cs))" by auto
    then show ?thesis
    proof cases
      case 1
      then show ?thesis using False by (auto dest: set_takeWhileD)
    next
      case 2
      from "2.IH"(2) [OF False this] show ?thesis .
    qed
  qed
qed

lemma tokens_unwords:
  "\<forall>t\<in>set ts. t \<noteq> [] \<and> (\<forall>c\<in>set t. \<not> is_space c) \<Longrightarrow> tokens (unwords ts) = ts"
proof (induction ts rule: unwords.induct)
  case 1
  show ?case by simp
next
  case (2 t)
  then have "tokens (t @ []) = t # tokens []" by (intro tokens_word) simp_all
  then show ?case by simp
next
  case (3 t u ts)
  have sp: "is_space (CHR '' '')" by (simp add: is_space_def)
  have "tokens (t @ ('' '' @ unwords (u # ts))) = t # tokens ('' '' @ unwords (u # ts))"
    using 3(2) by (intro tokens_word) (simp_all add: sp)
  also have "tokens ('' '' @ unwords (u # ts)) = tokens (unwords (u # ts))"
    by (simp add: sp)
  also have "\<dots> = u # ts" using 3 by simp
  finally show ?case by simp
qed


lemma starts_with_append: "starts_with s p \<Longrightarrow> s = p @ drop (length p) s"
  unfolding starts_with_def by (metis append_take_drop_id)

lemma replace_text_class_cases:
  "replace_text_class s = s \<or>
   (\<exists>u p v. s = u @ p @ v \<and> (p = ''text-success'' \<or> p = ''text-danger'')
      \<and> replace_text_class s = u @ v)"
proof (induction s)
  case Nil
  show ?case by simp
next
  case (Cons c cs)
  consider (a) "starts_with (c # cs) ''text-success''"
    | (b) "\<not> starts_with (c # cs) ''text-success''" "starts_with (c # cs) ''text-danger''"
    | (c) "\<not> starts_with (c # cs) ''text-success''" "\<not> starts_with (c # cs) ''text-danger''"
    by blast
  then show ?case
  proof cases
    case a
    from starts_with_append [OF a]
    have "c # cs = [] @ ''text-success'' @ drop (length ''text-success'') (c # cs)" by simp
    moreover have "replace_text_class (c # cs) = [] @ drop (length ''text-success'') (c # cs)"
      using a by simp
    ultimately show ?thesis by blast
  next
    case b
    from starts_with_append [OF b(2)]
    have "c # cs = [] @ ''text-danger'' @ drop (length ''text-danger'') (c # cs)" by simp
    moreover have "replace_text_class (c # cs) = [] @ drop (length ''text-danger'') (c # cs)"
      using b by simp
    ultimately show ?thesis by blast
  next
    case c
    then have r: "replace_text_class (c # cs) = c # replace_text_class cs" by simp
    from Cons show ?thesis
    proof
      assume "replace_text_class cs = cs"
      with r show ?thesis by simp
    next
      assume "\<exists>u p v. cs = u @ p @ v \<and> (p = ''text-success'' \<or> p = ''text-danger'')
        \<and> replace_text_class cs = u @ v"
      then obtain u p v where "cs = u @ p @ v" "p = ''text-success'' \<or> p = ''text-danger''"
        "replace_text_class cs = u @ v" by blast
      then have "c # cs = (c # u) @ p @ v" "replace_text_class (c # cs) = (c # u) @ v"
        using r by simp_all
      with \<open>p = ''text-success'' \<or> p = ''text-danger''\<close> show ?thesis by blast
    qed
  qed
qed

lemma token_survives:
  assumes t: "t \<in> set (tokens (u @ p @ v))"
    and p: "p \<noteq> []" "\<forall>c\<in>set p. \<not> is_space c"
    and x: "x \<in> set p" "x \<notin> set t"
  shows "t \<in> set (tokens (u @ v))"
proof -
  define w1 where "w1 = rev (takeWhile (\<lambda>c. \<not> is_space c) (rev u))"
  define pre where "pre = rev (dropWhile (\<lambda>c. \<not> is_space c) (rev u))"
  define w2 where "w2 = takeWhile (\<lambda>c. \<not> is_space c) v"
  define post where "post = dropWhile (\<lambda>c. \<not> is_space c) v"
  have u: "u = pre @ w1"
    unfolding pre_def w1_def by (metis rev_append rev_rev_ident takeWhile_dropWhile_id)
  have v: "v = w2 @ post" by (simp add: w2_def post_def)
  have w1: "\<forall>c\<in>set w1. \<not> is_space c"
    unfolding w1_def by (auto dest: set_takeWhileD)
  have w2: "\<forall>c\<in>set w2. \<not> is_space c"
    unfolding w2_def by (auto dest: set_takeWhileD)
  have pre: "pre = [] \<or> is_space (last pre)"
  proof (cases "dropWhile (\<lambda>c. \<not> is_space c) (rev u)")
    case Nil
    then show ?thesis by (simp add: pre_def)
  next
    case (Cons a as)
    then have "\<not> \<not> is_space a" by (metis hd_dropWhile list.sel(1) list.distinct(1))
    with Cons show ?thesis by (simp add: pre_def)
  qed
  have post: "post = [] \<or> is_space (hd post)"
  proof (cases post)
    case Nil
    then show ?thesis by simp
  next
    case (Cons a as)
    then have "\<not> \<not> is_space (hd post)"
      unfolding post_def by (metis hd_dropWhile list.distinct(1))
    then show ?thesis by simp
  qed
  define W where "W = w1 @ p @ w2"
  have W: "W \<noteq> []" "\<forall>c\<in>set W. \<not> is_space c" using p w1 w2 by (auto simp: W_def)
  have "u @ p @ v = pre @ (W @ post)" by (simp add: u v W_def)
  then have "tokens (u @ p @ v) = tokens pre @ tokens (W @ post)"
    using tokens_append [OF pre] by simp
  also have "tokens (W @ post) = W # tokens post" using W post by (rule tokens_word)
  finally have full: "tokens (u @ p @ v) = tokens pre @ W # tokens post" .
  have "x \<in> set W" using x(1) by (simp add: W_def)
  with x(2) have "t \<noteq> W" by auto
  with t full have in_rest: "t \<in> set (tokens pre) \<union> set (tokens post)" by auto
  have "u @ v = pre @ ((w1 @ w2) @ post)" by (simp add: u v)
  then have "tokens (u @ v) = tokens pre @ tokens ((w1 @ w2) @ post)"
    using tokens_append [OF pre] by simp
  moreover have "set (tokens post) \<subseteq> set (tokens ((w1 @ w2) @ post))"
  proof (cases "w1 @ w2 = []")
    case True
    then show ?thesis by simp
  next
    case False
    have "tokens ((w1 @ w2) @ post) = (w1 @ w2) # tokens post"
      using False w1 w2 post by (intro tokens_word) auto
    then show ?thesis by auto
  qed
  ultimately show ?thesis using in_rest by auto
qed

lemma text_class_token:
  assumes "tok = ''text-success'' \<or> tok = ''text-danger''"
  shows "tok \<noteq> []" "\<forall>c\<in>set tok. \<not> is_space c" "CHR ''x'' \<in> set tok"
  using assms by (elim disjE; simp add: is_space_def)+

lemma change_display_kept:
  assumes "classList_contains cls ''change-display''"
    and "tok = ''text-success'' \<or> tok = ''text-danger''"
  shows "classList_contains (classList_add tok (replace_text_class cls)) ''change-display''"
proof -
  let ?t = "''change-display''"
  have t: "?t \<in> set (tokens cls)" using assms(1) by (simp add: classList_contains_def)
  have nx: "CHR ''x'' \<notin> set ?t" by simp
  have kept: "?t \<in> set (tokens (replace_text_class cls))"
    using replace_text_class_cases [of cls]
  proof
    assume "replace_text_class cls = cls"
    with t show ?thesis by simp
  next
    assume "\<exists>u p v. cls = u @ p @ v \<and> (p = ''text-success'' \<or> p = ''text-danger'')
        \<and> replace_text_class cls = u @ v"
    then obtain u p v where c: "cls = u @ p @ v" "p = ''text-success'' \<or> p = ''text-danger''"
      "replace_text_class cls = u @ v" by blast
    from t have t': "?t \<in> set (tokens (u @ p @ v))" by (simp only: c(1))
    have "?t \<in> set (tokens (u @ v))"
      by (rule token_survives [OF t' text_class_token [OF c(2)] nx])
    then show ?thesis by (simp only: c(3))
  qed
  define ts where "ts = Set_add (new_Set (tokens (replace_text_class cls))) [tok]"
  have sts: "set ts = set (tokens (replace_text_class cls)) \<union> {tok}"
    by (auto simp: ts_def new_Set_def set_Set_add)
  have wf: "\<forall>t\<in>set ts. t \<noteq> [] \<and> (\<forall>c\<in>set t. \<not> is_space c)"
  proof
    fix t assume "t \<in> set ts"
    with sts consider "t \<in> set (tokens (replace_text_class cls))" | "t = tok" by auto
    then show "t \<noteq> [] \<and> (\<forall>c\<in>set t. \<not> is_space c)"
    proof cases
      case 1
      then show ?thesis by (rule tokens_wellformed)
    next
      case 2
      with text_class_token(1,2) [OF assms(2)] show ?thesis by simp
    qed
  qed
  have "tokens (unwords ts) = ts" using wf by (rule tokens_unwords)
  moreover have "?t \<in> set ts" using kept sts by simp
  ultimately show ?thesis
    unfolding classList_contains_def classList_add_def ts_def by simp
qed

lemma strip_text_children [simp]: "map strip_classes (text_children s) = text_children s"
  by (simp add: text_children_def)

lemma render_twice: "strip_classes (render ps (render ps n)) = strip_classes (render ps n)"
proof (induction n)
  case (Text s)
  show ?case by simp
next
  case (Elem i coin cls ld ks)
  have IH: "map (\<lambda>k. strip_classes (render ps (render ps k))) ks =
      map (\<lambda>k. strip_classes (render ps k)) ks"
    using Elem by simp
  show ?case
  proof (cases "case coin of None \<Rightarrow> None | Some c \<Rightarrow> ps c")
    case None
    then show ?thesis using IH by (simp add: comp_def)
  next
    case (Some price)
    define tok where "tok = (if 0 \<le> usd_24h_change price then ''text-success'' else ''text-danger'')"
    have tok: "tok = ''text-success'' \<or> tok = ''text-danger''" by (simp add: tok_def)
    show ?thesis
    proof (cases "classList_contains cls ''change-display''")
      case True
      from change_display_kept [OF True tok]
      have "classList_contains (classList_add tok (replace_text_class cls)) ''change-display''" .
      with True Some show ?thesis by (simp add: Let_def tok_def)
    next
      case False
      show ?thesis
      proof (cases "classList_contains cls ''price-display''")
        case True
        with False Some show ?thesis by (simp add: Let_def)
      next
        case no: False
        with False Some IH show ?thesis by (simp add: Let_def comp_def)
      qed
    qed
  qed
qed

lemma textContent_strip [simp]: "textContent (strip_classes n) = textContent n"
  by (induction n) (simp_all add: comp_def cong: map_cong)

lemma descendants_strip:
  "map textContent (descendants (strip_classes n)) = map textContent (descendants n)"
proof (induction n)
  case (Text s)
  show ?case by simp
next
  case (Elem i coin cls ld ks)
  have "map textContent (strip_classes k # descendants (strip_classes k)) =
      map textContent (k # descendants k)" if "k \<in> set ks" for k
    using Elem [OF that] by simp
  then show ?case by (simp add: map_concat comp_def cong: map_cong)
qed

lemma nodes_strip:
  "map textContent (nodes (map strip_classes doc)) = map textContent (nodes doc)"
  by (simp add: nodes_def map_concat comp_def descendants_strip)

text \<open>
  Claim C8. Applying the same quotes a second time leaves the rendered text of every node
  of the document as the first application left it; indeed the two documents differ at
  most in class attributes.
\<close>

theorem updatePriceElements_idempotent_text:
  "map textContent (nodes (body (updatePriceElements ps (updatePriceElements ps st)))) =
     map textContent (nodes (body (updatePriceElements ps st)))
   \<and> map strip_classes (body (updatePriceElements ps (updatePriceElements ps st))) =
       map strip_classes (body (updatePriceElements ps st))"
proof -
  have eq: "map strip_classes (map (render ps) (map (render ps) doc)) =
      map strip_classes (map (render ps) doc)" for doc
    by (simp add: render_twice)
  have "map textContent (nodes (map (render ps) (map (render ps) (body st)))) =
      map textContent (nodes (map strip_classes (map (render ps) (map (render ps) (body st)))))"
    by (simp only: nodes_strip)
  also have "\<dots> = map textContent (nodes (map strip_classes (map (render ps) (body st))))"
    by (simp only: eq)
  also have "\<dots> = map textContent (nodes (map (render ps) (body st)))"
    by (simp only: nodes_strip)
  finally show ?thesis using eq [of "body st"] by (simp add: updatePriceElements_def)
qed

text \<open>
  The class attribute itself is not stable under a second application: the pattern deletes
  one class name per call.
\<close>

lemma render_class_attribute_changes:
  "render [''bitcoin'' \<mapsto> \<lparr>usd = 2, usd_24h_change = 1\<rparr>]
     (Elem 1 (Some ''bitcoin'') ''change-display text-success text-danger'' False []) =
   Elem 1 (Some ''bitcoin'') ''change-display text-danger text-success'' False [Text ''+1.00%'']
   \<and> render [''bitcoin'' \<mapsto> \<lparr>usd = 2, usd_24h_change = 1\<rparr>]
     (Elem 1 (Some ''bitcoin'') ''change-display text-danger text-success'' False [Text ''+1.00%'']) =
   Elem 1 (Some ''bitcoin'') ''change-display text-success'' False [Text ''+1.00%'']"
  by code_simp

end
